theory Spec2Isabelle
  imports Complex_Main "HOL-Library.Product_Lexorder"
begin

section \<open>Treasury yield pipeline: fetch, cache, parse, merge\<close>

text \<open>
  A shallow embedding of \<^verbatim>\<open>src/draft/_ust.py\<close>. Every function of the module that touches the
  file system or the network takes the world and returns the new one; every \<^verbatim>\<open>raise\<close> is the
  \<open>Inl\<close> branch of a sum. What the module takes from its libraries is a field of the
  environment: the response body of the HTTP GET, the calendar year of today, the tree that
  \<^verbatim>\<open>bs4.BeautifulSoup(_, "xml")\<close> builds, Python's \<^verbatim>\<open>float\<close> and \<^verbatim>\<open>datetime.strptime\<close> with the
  module's format. Floating-point values are carried as reals; no theorem below computes with
  them. A request that fails in transport, and what \<^verbatim>\<open>print\<close> writes, are left out.
\<close>

subsection \<open>Values\<close>

datatype error = ValueError | TypeError | AttributeError | KeyError | FileNotFoundError

text \<open>
  A parsed document: a \<^verbatim>\<open>Tag\<close> with its children, or a \<^verbatim>\<open>NavigableString\<close>. The name of a
  tag is the name \<^verbatim>\<open>find\<close> and \<^verbatim>\<open>find_all\<close> match it by.
\<close>

datatype xml = Tag string "xml list" | NavigableString string

text \<open>A calendar day: year, month, day, ordered lexicographically.\<close>

type_synonym date = "int \<times> int \<times> int"

text \<open>
  The Python values that reach the module's functions. \<open>PDay d\<close> is the string
  \<^verbatim>\<open>"%Y-%m-%d"\<close> that \<^verbatim>\<open>strftime\<close> returns for the day \<open>d\<close>, kept as the day it spells;
  \<^verbatim>\<open>pd.to_datetime\<close> reads it back as that day.
\<close>

datatype pyval = PNone | PStr string | PTag xml | PFloat real | PInt int | PDay date

text \<open>A Python \<^verbatim>\<open>dict\<close> with string keys, in insertion order.\<close>

type_synonym dict = "(string \<times> pyval) list"

fun dict_set :: "string \<Rightarrow> pyval \<Rightarrow> dict \<Rightarrow> dict" where
  "dict_set k v [] = [(k, v)]"
| "dict_set k v ((k', v') # d) = (if k' = k then (k, v) # d else (k', v') # dict_set k v d)"

text \<open>
  A generator that has been run to its end: the values it yielded, and the exception that
  ended it, if one did.
\<close>

type_synonym 'a generator = "'a list \<times> error option"

text \<open>One row of a data frame: the date index and the twelve yield columns.\<close>

type_synonym row = "date \<times> pyval option list"

type_synonym table = "row list"

record env =
  web :: "int \<Rightarrow> string"
  today_year :: int
  soup :: "string \<Rightarrow> xml"
  py_float :: "string \<Rightarrow> real option"
  strptime :: "string \<Rightarrow> date option"

text \<open>
  The world: the directory \<^verbatim>\<open>xml\<close> (absent, or present with one file per year), the file
  \<^verbatim>\<open>ust.csv\<close> (absent, or holding a table), and the years requested from the network so far.
\<close>

record world =
  xml_dir :: "(int \<Rightarrow> string option) option"
  csv_file :: "table option"
  requested :: "int list"

definition BC_KEYS :: "string list" where
  "BC_KEYS = [''BC_1MONTH'', ''BC_3MONTH'', ''BC_6MONTH'', ''BC_1YEAR'', ''BC_2YEAR'',
     ''BC_3YEAR'', ''BC_5YEAR'', ''BC_7YEAR'', ''BC_10YEAR'', ''BC_20YEAR'', ''BC_30YEAR'',
     ''BC_30YEARDISPLAY'']"

definition DF_COLUMNS :: "string list" where
  "DF_COLUMNS = ''date'' # BC_KEYS"

subsection \<open>Strings\<close>

text \<open>\<^verbatim>\<open>t.startswith(s)\<close> and \<^verbatim>\<open>s in t\<close>.\<close>

fun startswith :: "string \<Rightarrow> string \<Rightarrow> bool" where
  "startswith [] t = True"
| "startswith (a # s) [] = False"
| "startswith (a # s) (b # t) = (a = b \<and> startswith s t)"

fun str_in :: "string \<Rightarrow> string \<Rightarrow> bool" where
  "str_in s [] = (s = [])"
| "str_in s (c # t) = (startswith s (c # t) \<or> str_in s t)"

subsection \<open>The document tree\<close>

text \<open>The tags and strings below an element, in document order.\<close>

fun descendants :: "xml \<Rightarrow> xml list" where
  "descendants (Tag n cs) = concat (map (\<lambda>c. c # descendants c) cs)"
| "descendants (NavigableString s) = []"

fun is_tag :: "xml \<Rightarrow> bool" where
  "is_tag (Tag n cs) = True"
| "is_tag (NavigableString s) = False"

fun named :: "string \<Rightarrow> xml \<Rightarrow> bool" where
  "named k (Tag n cs) = (n = k)"
| "named k (NavigableString s) = False"

definition find_all :: "string \<Rightarrow> xml \<Rightarrow> xml list" where
  "find_all k t = filter (named k) (descendants t)"

definition find_tag :: "string \<Rightarrow> xml \<Rightarrow> xml option" where
  "find_tag k t = (case find_all k t of [] \<Rightarrow> None | e # _ \<Rightarrow> Some e)"

definition findChildren :: "xml \<Rightarrow> xml list" where
  "findChildren t = filter is_tag (descendants t)"

fun text_of :: "xml \<Rightarrow> string" where
  "text_of (Tag n cs) = concat (map text_of cs)"
| "text_of (NavigableString s) = s"

subsection \<open>Parsing XML string to dict\<close>

text \<open>\<^verbatim>\<open>strptime\<close> raises TypeError on anything that is not a \<^verbatim>\<open>str\<close>, ValueError on a
  string that does not match the format.\<close>

definition get_date :: "env \<Rightarrow> pyval \<Rightarrow> error + date" where
  "get_date E v =
     (case v of
        PStr s \<Rightarrow> (case strptime E s of None \<Rightarrow> Inl ValueError | Some d \<Rightarrow> Inr d)
      | _ \<Rightarrow> Inl TypeError)"

definition as_float :: "env \<Rightarrow> string \<Rightarrow> pyval" where
  "as_float E s = (case py_float E s of Some x \<Rightarrow> PFloat x | None \<Rightarrow> PInt 0)"

text \<open>
  The generator expression over \<open>BC_KEYS\<close>: \<^verbatim>\<open>datum.find(key)\<close> is \<^verbatim>\<open>None\<close> when the entry
  has no such element, and \<^verbatim>\<open>None.text\<close> raises AttributeError, outside \<open>as_float\<close>. The keys
  are distinct, so \<^verbatim>\<open>dict\<close> of the pairs is the pairs.
\<close>

fun field_items :: "env \<Rightarrow> xml \<Rightarrow> string list \<Rightarrow> error + dict" where
  "field_items E datum [] = Inr []"
| "field_items E datum (key # keys) =
     (case find_tag key datum of
        None \<Rightarrow> Inl AttributeError
      | Some e \<Rightarrow>
          (case field_items E datum keys of
             Inl err \<Rightarrow> Inl err
           | Inr items \<Rightarrow> Inr ((key, as_float E (text_of e)) # items)))"

definition datapoint :: "env \<Rightarrow> xml \<Rightarrow> error + dict" where
  "datapoint E datum =
     (case field_items E datum BC_KEYS of
        Inl err \<Rightarrow> Inl err
      | Inr cur_dict \<Rightarrow>
          (case find_tag ''NEW_DATE'' datum of
             None \<Rightarrow> Inl AttributeError
           | Some e \<Rightarrow>
               (case get_date E (PStr (text_of e)) of
                  Inl err \<Rightarrow> Inl err
                | Inr d \<Rightarrow> Inr (dict_set ''date'' (PDay d) cur_dict))))"

text \<open>A \<^verbatim>\<open>for\<close> loop that yields \<open>f x\<close> for each \<open>x\<close> and ends at the first exception.\<close>

fun generate :: "('a \<Rightarrow> error + 'b) \<Rightarrow> 'a list \<Rightarrow> 'b generator" where
  "generate f [] = ([], None)"
| "generate f (x # xs) =
     (case f x of
        Inl err \<Rightarrow> ([], Some err)
      | Inr y \<Rightarrow> (y # fst (generate f xs), snd (generate f xs)))"

definition yield_datapoints_from_string :: "env \<Rightarrow> string \<Rightarrow> dict generator" where
  "yield_datapoints_from_string E xml_content =
     generate (datapoint E) (find_all ''content'' (soup E xml_content))"

text \<open>The alternative parser: the loop over \<^verbatim>\<open>prop.findChildren()\<close>, then the entry.\<close>

fun collect_fields :: "env \<Rightarrow> xml list \<Rightarrow> dict \<Rightarrow> error + dict" where
  "collect_fields E [] point = Inr point"
| "collect_fields E (NavigableString s # children) point = collect_fields E children point"
| "collect_fields E (Tag name cs # children) point =
     (if startswith ''BC_'' name then
        (case py_float E (text_of (Tag name cs)) of
           None \<Rightarrow> Inl ValueError
         | Some x \<Rightarrow> collect_fields E children (dict_set name (PFloat x) point))
      else collect_fields E children point)"

definition datapoint_2 :: "env \<Rightarrow> xml \<Rightarrow> error + dict" where
  "datapoint_2 E prop =
     (case get_date E (case find_tag ''NEW_DATE'' prop of None \<Rightarrow> PNone | Some e \<Rightarrow> PTag e) of
        Inl err \<Rightarrow> Inl err
      | Inr d \<Rightarrow> collect_fields E (findChildren prop) [(''date'', PDay d)])"

definition yield_datapoints_from_string_2 :: "env \<Rightarrow> string \<Rightarrow> dict generator" where
  "yield_datapoints_from_string_2 E xml_content =
     generate (datapoint_2 E) (find_all ''properties'' (soup E xml_content))"

subsection \<open>Local XML file cache\<close>

text \<open>\<^verbatim>\<open>filepath\<close> makes the directory when it is not there; the path is the year.\<close>

definition filepath :: "world \<Rightarrow> world" where
  "filepath w = (case xml_dir w of None \<Rightarrow> w\<lparr>xml_dir := Some (\<lambda>y. None)\<rparr> | Some m \<Rightarrow> w)"

definition cached :: "world \<Rightarrow> int \<Rightarrow> string option" where
  "cached w year = (case xml_dir w of None \<Rightarrow> None | Some m \<Rightarrow> m year)"

definition read_local_xml :: "world \<Rightarrow> int \<Rightarrow> world \<times> (error + string)" where
  "read_local_xml w year =
     (let w1 = filepath w
      in (w1, case cached w1 year of None \<Rightarrow> Inl FileNotFoundError | Some c \<Rightarrow> Inr c))"

definition save_local_xml :: "world \<Rightarrow> int \<Rightarrow> string \<Rightarrow> world" where
  "save_local_xml w year content =
     (let w1 = filepath w
      in w1\<lparr>xml_dir := Some ((cached w1)(year := Some content))\<rparr>)"

subsection \<open>Web request\<close>

definition get_web_xml :: "env \<Rightarrow> world \<Rightarrow> int \<Rightarrow> world \<times> string" where
  "get_web_xml E w year = (w\<lparr>requested := requested w @ [year]\<rparr>, web E year)"

definition get_xml_content_from_web :: "env \<Rightarrow> world \<Rightarrow> int \<Rightarrow> world \<times> (error + string)" where
  "get_xml_content_from_web E w year =
     (case get_web_xml E w year of
        (w1, content) \<Rightarrow> if str_in ''Error'' content then (w1, Inl ValueError) else (w1, Inr content))"

subsection \<open>End-use functions\<close>

text \<open>
  The condition of \<open>get_datapoints\<close> is evaluated left to right: \<open>filepath\<close>, and with it the
  creation of the directory, runs only when the first two disjuncts are false.
\<close>

definition get_datapoints :: "env \<Rightarrow> world \<Rightarrow> int \<Rightarrow> bool \<Rightarrow> world \<times> (error + dict generator)" where
  "get_datapoints E w year from_web =
     (let w0 = (if from_web \<or> year = today_year E then w else filepath w)
      in if from_web \<or> year = today_year E \<or> cached w0 year = None then
           (case get_xml_content_from_web E w0 year of
              (w1, Inl err) \<Rightarrow> (w1, Inl err)
            | (w1, Inr xml_content) \<Rightarrow>
                (save_local_xml w1 year xml_content,
                 Inr (yield_datapoints_from_string E xml_content)))
         else
           (case read_local_xml w0 year of
              (w1, Inl err) \<Rightarrow> (w1, Inl err)
            | (w1, Inr xml_content) \<Rightarrow> (w1, Inr (yield_datapoints_from_string E xml_content))))"

text \<open>
  \<^verbatim>\<open>pd.DataFrame(gen)[DF_COLUMNS]\<close>, \<^verbatim>\<open>pd.to_datetime\<close> and \<^verbatim>\<open>set_index\<close>. The frame runs
  the generator to its end, so an exception of the parser comes out here; selecting a column
  that no record has raises KeyError, which is what happens on no records at all. A field
  that one record lacks is a missing cell. No record of the parser lacks its date; for a
  record that does, the model raises KeyError as well.
\<close>

fun to_datetime :: "pyval \<Rightarrow> error + date" where
  "to_datetime (PDay d) = Inr d"
| "to_datetime (PStr s) = Inl ValueError"
| "to_datetime v = Inl TypeError"

definition frame_row :: "dict \<Rightarrow> error + row" where
  "frame_row d =
     (case map_of d ''date'' of
        None \<Rightarrow> Inl KeyError
      | Some v \<Rightarrow>
          (case to_datetime v of
             Inl err \<Rightarrow> Inl err
           | Inr day \<Rightarrow> Inr (day, map (map_of d) BC_KEYS)))"

fun frame_rows :: "dict list \<Rightarrow> error + table" where
  "frame_rows [] = Inr []"
| "frame_rows (d # ds) =
     (case frame_row d of
        Inl err \<Rightarrow> Inl err
      | Inr r \<Rightarrow> (case frame_rows ds of Inl err \<Rightarrow> Inl err | Inr rs \<Rightarrow> Inr (r # rs)))"

definition DataFrame :: "dict generator \<Rightarrow> error + table" where
  "DataFrame gen =
     (case snd gen of
        Some err \<Rightarrow> Inl err
      | None \<Rightarrow> if fst gen = [] then Inl KeyError else frame_rows (fst gen))"

definition get_df :: "env \<Rightarrow> world \<Rightarrow> int \<Rightarrow> world \<times> (error + table)" where
  "get_df E w year =
     (case get_datapoints E w year False of
        (w1, Inl err) \<Rightarrow> (w1, Inl err)
      | (w1, Inr gen) \<Rightarrow> (w1, DataFrame gen))"

text \<open>The list comprehension of \<open>get_dfs\<close>, one year after the other.\<close>

fun get_df_list :: "env \<Rightarrow> world \<Rightarrow> int list \<Rightarrow> world \<times> (error + table list)" where
  "get_df_list E w [] = (w, Inr [])"
| "get_df_list E w (year # years) =
     (case get_df E w year of
        (w1, Inl err) \<Rightarrow> (w1, Inl err)
      | (w1, Inr df) \<Rightarrow>
          (case get_df_list E w1 years of
             (w2, Inl err) \<Rightarrow> (w2, Inl err)
           | (w2, Inr dfs) \<Rightarrow> (w2, Inr (df # dfs))))"

text \<open>\<^verbatim>\<open>pd.concat\<close> raises ValueError when there is nothing to concatenate.\<close>

definition pd_concat :: "table list \<Rightarrow> error + table" where
  "pd_concat dfs = (if dfs = [] then Inl ValueError else Inr (concat dfs))"

definition get_dfs :: "env \<Rightarrow> world \<Rightarrow> int list \<Rightarrow> world \<times> (error + table)" where
  "get_dfs E w years =
     (case get_df_list E w years of
        (w1, Inl err) \<Rightarrow> (w1, Inl err)
      | (w1, Inr dfs) \<Rightarrow> (w1, pd_concat dfs))"

text \<open>\<^verbatim>\<open>drop_duplicates(subset="date", keep="last")\<close>: a row stays when no later row has its
  date; the rows that stay keep their order.\<close>

fun drop_duplicates_last :: "('k \<times> 'v) list \<Rightarrow> ('k \<times> 'v) list" where
  "drop_duplicates_last [] = []"
| "drop_duplicates_last (r # rs) =
     (if fst r \<in> fst ` set rs then drop_duplicates_last rs else r # drop_duplicates_last rs)"

text \<open>\<^verbatim>\<open>max\<close> of an iterable raises ValueError when it is empty.\<close>

fun py_max :: "'a::linorder list \<Rightarrow> error + 'a" where
  "py_max [] = Inl ValueError"
| "py_max (x # xs) = Inr (fold max xs x)"

definition update_dfs :: "env \<Rightarrow> world \<Rightarrow> world \<times> (error + table)" where
  "update_dfs E w =
     (case csv_file w of
        None \<Rightarrow> (w, Inl FileNotFoundError)
      | Some df0 \<Rightarrow>
          (case py_max (map fst df0) of
             Inl err \<Rightarrow> (w, Inl err)
           | Inr latest \<Rightarrow>
               (case get_dfs E w [fst latest .. today_year E] of
                  (w1, Inl err) \<Rightarrow> (w1, Inl err)
                | (w1, Inr df1) \<Rightarrow>
                    (let df = drop_duplicates_last (df0 @ df1)
                     in (w1\<lparr>csv_file := Some df\<rparr>, Inr df)))))"

subsection \<open>What a run reads\<close>

text \<open>
  The notions the theorems are stated with. \<open>use_web\<close> is the condition of \<open>get_datapoints\<close>
  before \<open>filepath\<close> has run. \<open>resolve\<close> is the document that \<open>get_df\<close> obtains for a year:
  the response body when the year is the current one or has no file, the file otherwise.
  \<open>frames\<close> is what \<open>get_dfs\<close> returns when every year resolves as in the world it starts from.
  An entry is complete when it has an element for each of the twelve fields and a
  \<^verbatim>\<open>NEW_DATE\<close> whose text matches the format.
\<close>

definition use_web :: "env \<Rightarrow> world \<Rightarrow> int \<Rightarrow> bool \<Rightarrow> bool" where
  "use_web E w year from_web \<longleftrightarrow> from_web \<or> year = today_year E \<or> cached w year = None"

definition resolve :: "env \<Rightarrow> world \<Rightarrow> int \<Rightarrow> error + string" where
  "resolve E w year =
     (if year = today_year E \<or> cached w year = None then
        (if str_in ''Error'' (web E year) then Inl ValueError else Inr (web E year))
      else (case cached w year of None \<Rightarrow> Inl FileNotFoundError | Some c \<Rightarrow> Inr c))"

definition df_of :: "env \<Rightarrow> error + string \<Rightarrow> error + table" where
  "df_of E r =
     (case r of Inl err \<Rightarrow> Inl err | Inr c \<Rightarrow> DataFrame (yield_datapoints_from_string E c))"

fun collect :: "('a \<Rightarrow> error + 'b) \<Rightarrow> 'a list \<Rightarrow> error + 'b list" where
  "collect f [] = Inr []"
| "collect f (x # xs) =
     (case f x of
        Inl err \<Rightarrow> Inl err
      | Inr y \<Rightarrow> (case collect f xs of Inl err \<Rightarrow> Inl err | Inr ys \<Rightarrow> Inr (y # ys)))"

definition frames :: "env \<Rightarrow> world \<Rightarrow> int list \<Rightarrow> error + table" where
  "frames E w years =
     (case collect (\<lambda>y. df_of E (resolve E w y)) years of
        Inl err \<Rightarrow> Inl err
      | Inr dfs \<Rightarrow> pd_concat dfs)"

definition entry_complete :: "env \<Rightarrow> xml \<Rightarrow> bool" where
  "entry_complete E datum \<longleftrightarrow>
     (\<forall>k \<in> set BC_KEYS. find_tag k datum \<noteq> None) \<and>
     (case find_tag ''NEW_DATE'' datum of
        None \<Rightarrow> False
      | Some e \<Rightarrow> strptime E (text_of e) \<noteq> None)"

subsection \<open>A small run\<close>

text \<open>
  Concrete inputs to evaluate the pipeline on. A response body is named by a short string and
  \<open>sample_soup\<close> gives its tree, shaped as the feed is: \<^verbatim>\<open>feed / entry / content / properties\<close>
  with one element per field, an element without text where the feed has a null value.
  Feed a has two days in order, the second with a null 30-year yield; feed b has the same days
  in reverse order; in feed c the entry has no 30-year element at all; feed d has the
  properties directly under the entry, without \<^verbatim>\<open>content\<close>. Any other body is an error page.
  \<open>py_float\<close> and \<open>strptime\<close> are tabulated on the texts that occur.
\<close>

definition leaf :: "string \<Rightarrow> string \<Rightarrow> xml" where
  "leaf k s = Tag k (if s = [] then [] else [NavigableString s])"

definition sample_entry :: "string \<Rightarrow> string list \<Rightarrow> string \<Rightarrow> xml" where
  "sample_entry day keys y30 =
     Tag ''entry'' [Tag ''content'' [Tag ''properties''
       (leaf ''NEW_DATE'' day #
        map (\<lambda>k. leaf k (if k = ''BC_30YEAR'' then y30 else ''1.5'')) keys)]]"

definition sample_soup :: "string \<Rightarrow> xml" where
  "sample_soup body =
     (if body = ''feed a'' then
        Tag ''feed'' [sample_entry ''2020-01-02T00:00:00'' BC_KEYS ''2.33'',
                      sample_entry ''2020-01-03T00:00:00'' BC_KEYS []]
      else if body = ''feed b'' then
        Tag ''feed'' [sample_entry ''2020-01-03T00:00:00'' BC_KEYS ''2.33'',
                      sample_entry ''2020-01-02T00:00:00'' BC_KEYS ''2.33'']
      else if body = ''feed c'' then
        Tag ''feed'' [sample_entry ''2020-01-02T00:00:00'' (remove1 ''BC_30YEAR'' BC_KEYS) ''2.33'']
      else if body = ''feed d'' then
        Tag ''feed'' [Tag ''entry'' [Tag ''properties''
          (leaf ''NEW_DATE'' ''2020-01-02T00:00:00'' # map (\<lambda>k. leaf k ''1.5'') BC_KEYS)]]
      else Tag ''html'' [NavigableString body])"

definition sample_env :: "string \<Rightarrow> env" where
  "sample_env body =
     \<lparr>web = (\<lambda>year. body), today_year = 2020, soup = sample_soup,
      py_float = map_of [(''1.5'', 1.5), (''2.33'', 2.33)],
      strptime = map_of [(''2020-01-02T00:00:00'', (2020, 1, 2)),
                         (''2020-01-03T00:00:00'', (2020, 1, 3))]\<rparr>"

definition sample_cells :: "pyval \<Rightarrow> pyval option list" where
  "sample_cells y30 = map (\<lambda>k. Some (if k = ''BC_30YEAR'' then y30 else PFloat 1.5)) BC_KEYS"

text \<open>No cache directory yet, and a table of one row; then the same with two cached years.\<close>

definition sample_world :: world where
  "sample_world =
     \<lparr>xml_dir = None, csv_file = Some [((2020, 1, 2), sample_cells (PFloat 2.25))],
      requested = []\<rparr>"

definition sample_cache :: world where
  "sample_cache =
     sample_world\<lparr>xml_dir := Some (map_of [(2019, ''feed a''), (2020, ''feed a'')])\<rparr>"

section \<open>Properties\<close>

subsection \<open>Substrings\<close>

text \<open>\<open>str_in\<close> is the substring relation.\<close>

lemma startswith_iff: "startswith s t \<longleftrightarrow> (\<exists>q. t = s @ q)"
  by (induction s t rule: startswith.induct) auto

lemma str_in_iff: "str_in s t \<longleftrightarrow> (\<exists>p q. t = p @ s @ q)"
proof (induction t)
  case Nil
  then show ?case by auto
next
  case (Cons c t)
  show ?case
  proof
    assume "str_in s (c # t)"
    then consider "startswith s (c # t)" | "str_in s t" by auto
    then show "\<exists>p q. c # t = p @ s @ q"
    proof cases
      case 1
      then obtain q where "c # t = s @ q" by (auto simp: startswith_iff)
      then have "c # t = [] @ s @ q" by simp
      then show ?thesis by blast
    next
      case 2
      then obtain p q where "t = p @ s @ q" using Cons.IH by auto
      then have "c # t = (c # p) @ s @ q" by simp
      then show ?thesis by blast
    qed
  next
    assume "\<exists>p q. c # t = p @ s @ q"
    then obtain p q where pq: "c # t = p @ s @ q" by auto
    show "str_in s (c # t)"
    proof (cases p)
      case Nil
      then have "startswith s (c # t)" unfolding startswith_iff using pq by auto
      then show ?thesis by simp
    next
      case (Cons a p')
      then have "t = p' @ s @ q" using pq by simp
      then show ?thesis using Cons.IH by auto
    qed
  qed
qed

subsection \<open>Dropping duplicates\<close>

text \<open>
  Dropping duplicates keeps every date once, keeps the order of what stays, and over a
  concatenation drops from the first part every date of the second.
\<close>

lemma keys_ddl: "fst ` set (drop_duplicates_last xs) = fst ` set xs"
  by (induction xs) auto

lemma set_ddl_subset: "set (drop_duplicates_last xs) \<subseteq> set xs"
  by (induction xs) auto

lemma distinct_ddl: "distinct (map fst (drop_duplicates_last xs))"
proof (induction xs)
  case Nil
  then show ?case by simp
next
  case (Cons r rs)
  have "fst r \<notin> fst ` set rs \<Longrightarrow> fst r \<notin> fst ` set (drop_duplicates_last rs)"
    by (simp add: keys_ddl)
  with Cons show ?case by auto
qed

lemma ddl_distinct: "distinct (map fst xs) \<Longrightarrow> drop_duplicates_last xs = xs"
  by (induction xs) auto

lemma ddl_append:
  "drop_duplicates_last (xs @ ys) =
     filter (\<lambda>r. fst r \<notin> fst ` set ys) (drop_duplicates_last xs) @ drop_duplicates_last ys"
  by (induction xs) (auto simp: image_Un)

lemma ddl_filter_key:
  "filter (\<lambda>r. fst r = D) (drop_duplicates_last xs) =
     (if D \<in> fst ` set xs then [last (filter (\<lambda>r. fst r = D) xs)] else [])"
proof (induction xs)
  case Nil
  then show ?case by simp
next
  case (Cons r rs)
  show ?case
  proof (cases "fst r \<in> fst ` set rs")
    case True
    then show ?thesis using Cons by (auto simp: filter_empty_conv)
  next
    case False
    then show ?thesis using Cons set_ddl_subset[of rs] by (auto simp: filter_empty_conv image_iff)
  qed
qed

lemma sorted_ddl: "sorted (map fst xs) \<Longrightarrow> sorted (map fst (drop_duplicates_last xs))"
proof (induction xs)
  case Nil
  then show ?case by simp
next
  case (Cons r rs)
  then have "\<forall>x \<in> set (drop_duplicates_last rs). fst r \<le> fst x"
    using set_ddl_subset[of rs] by auto
  with Cons show ?case by auto
qed

lemma ddl_absorb:
  "drop_duplicates_last (drop_duplicates_last (zs @ ys) @ ys) = drop_duplicates_last (zs @ ys)"
proof -
  let ?A = "filter (\<lambda>r. fst r \<notin> fst ` set ys) (drop_duplicates_last zs)"
  have d: "distinct (map fst ?A)"
    using distinct_ddl[of zs] by (simp add: distinct_map_filter)
  have "drop_duplicates_last ((?A @ drop_duplicates_last ys) @ ys) =
        filter (\<lambda>r. fst r \<notin> fst ` set ys) (drop_duplicates_last (?A @ drop_duplicates_last ys)) @ drop_duplicates_last ys"
    by (rule ddl_append)
  also have "drop_duplicates_last (?A @ drop_duplicates_last ys) =
        filter (\<lambda>r. fst r \<notin> fst ` set (drop_duplicates_last ys)) (drop_duplicates_last ?A) @ drop_duplicates_last (drop_duplicates_last ys)"
    by (rule ddl_append)
  also have "drop_duplicates_last ?A = ?A" using d by (rule ddl_distinct)
  also have "drop_duplicates_last (drop_duplicates_last ys) = drop_duplicates_last ys"
    using distinct_ddl by (rule ddl_distinct)
  also have "filter (\<lambda>r. fst r \<notin> fst ` set ys) (filter (\<lambda>r. fst r \<notin> fst ` set (drop_duplicates_last ys)) ?A @ drop_duplicates_last ys) = ?A"
  proof -
    have "filter (\<lambda>r. fst r \<notin> fst ` set ys) (drop_duplicates_last ys) = []"
      using set_ddl_subset[of ys] by (auto simp: filter_empty_conv)
    then show ?thesis by (simp add: keys_ddl)
  qed
  finally show ?thesis by (simp add: ddl_append)
qed

lemma sorted_merge_ddl:
  fixes xs ys :: "('k::linorder \<times> 'v) list"
  assumes a: "sorted (map fst xs)" and b: "sorted (map fst ys)"
    and c: "\<forall>r \<in> set xs. fst r \<notin> fst ` set ys \<longrightarrow> (\<forall>r' \<in> set ys. fst r \<le> fst r')"
  shows "sorted (map fst (drop_duplicates_last (xs @ ys)))"
proof -
  let ?A = "filter (\<lambda>r. fst r \<notin> fst ` set ys) (drop_duplicates_last xs)"
  have "sorted (map fst (drop_duplicates_last xs))" using a by (rule sorted_ddl)
  then have 1: "sorted (map fst ?A)" by (simp add: sorted_filter)
  have 2: "sorted (map fst (drop_duplicates_last ys))" using b by (rule sorted_ddl)
  have 3: "\<forall>x \<in> set ?A. \<forall>y \<in> set (drop_duplicates_last ys). fst x \<le> fst y"
  proof (intro ballI)
    fix x y assume x: "x \<in> set ?A" and y: "y \<in> set (drop_duplicates_last ys)"
    from x have "x \<in> set xs" "fst x \<notin> fst ` set ys" using set_ddl_subset[of xs] by auto
    moreover from y have "y \<in> set ys" using set_ddl_subset[of ys] by auto
    ultimately show "fst x \<le> fst y" using c by blast
  qed
  show ?thesis unfolding ddl_append using 1 2 3 by (simp add: sorted_append)
qed

subsection \<open>The cache and the fetch\<close>

lemma cached_filepath: "cached (filepath w) = cached w"
  by (rule ext) (auto simp: cached_def filepath_def split: option.splits)

lemma filepath_csv: "csv_file (filepath w) = csv_file w"
  by (simp add: filepath_def split: option.splits)

lemma filepath_requested: "requested (filepath w) = requested w"
  by (simp add: filepath_def split: option.splits)

lemma cached_save: "cached (save_local_xml w year c) = (cached w)(year := Some c)"
  by (rule ext) (simp add: save_local_xml_def Let_def cached_filepath cached_def)

lemma save_csv: "csv_file (save_local_xml w year c) = csv_file w"
  by (simp add: save_local_xml_def Let_def filepath_csv)

lemma save_requested: "requested (save_local_xml w year c) = requested w"
  by (simp add: save_local_xml_def Let_def filepath_requested)

lemma cached_requested_upd: "cached (w\<lparr>requested := r\<rparr>) = cached w"
  by (rule ext) (simp add: cached_def)

lemma cached_csv_upd: "cached (w\<lparr>csv_file := r\<rparr>) = cached w"
  by (rule ext) (simp add: cached_def)

text \<open>The two branches of \<open>get_datapoints\<close>.\<close>

lemma get_datapoints_web:
  assumes "use_web E w year from_web"
  shows "get_datapoints E w year from_web =
    (let w0 = (if from_web \<or> year = today_year E then w else filepath w);
         w1 = w0\<lparr>requested := requested w0 @ [year]\<rparr>
     in if str_in ''Error'' (web E year) then (w1, Inl ValueError)
        else (save_local_xml w1 year (web E year), Inr (yield_datapoints_from_string E (web E year))))"
  using assms
  by (auto simp: use_web_def get_datapoints_def Let_def cached_filepath
      get_xml_content_from_web_def get_web_xml_def)

lemma get_datapoints_local:
  assumes "\<not> use_web E w year from_web"
  shows "\<exists>c. cached w year = Some c \<and>
     get_datapoints E w year from_web = (w, Inr (yield_datapoints_from_string E c))"
proof -
  from assms obtain c where c: "cached w year = Some c" "\<not> from_web" "year \<noteq> today_year E"
    by (auto simp: use_web_def)
  then obtain m where m: "xml_dir w = Some m" by (auto simp: cached_def split: option.splits)
  then have fp: "filepath w = w" by (simp add: filepath_def)
  show ?thesis using c fp
    by (auto simp: get_datapoints_def Let_def read_local_xml_def)
qed

subsection \<open>A run returns what the world resolves\<close>

text \<open>
  \<open>get_df\<close> returns the frame of the document the year resolves to, and leaves every year
  resolving as before: a fetched document is saved, so the file read next time is the
  document fetched this time.
\<close>

lemma get_df_snd: "snd (get_df E w year) = df_of E (resolve E w year)"
proof (cases "use_web E w year False")
  case True
  then show ?thesis
    by (auto simp: get_df_def get_datapoints_web[OF True] Let_def resolve_def df_of_def use_web_def)
next
  case False
  from get_datapoints_local[OF False] obtain c where
    "cached w year = Some c" "get_datapoints E w year False = (w, Inr (yield_datapoints_from_string E c))"
    by auto
  then show ?thesis using False
    by (auto simp: get_df_def resolve_def df_of_def use_web_def)
qed

lemma get_df_world:
  "resolve E (fst (get_df E w year)) = resolve E w \<and> csv_file (fst (get_df E w year)) = csv_file w"
proof (cases "use_web E w year False")
  case True
  have "resolve E (fst (get_df E w year)) y = resolve E w y" for y
    using True
    by (auto simp: get_df_def get_datapoints_web[OF True] Let_def resolve_def use_web_def
        cached_save cached_filepath cached_requested_upd)
  moreover have "csv_file (fst (get_df E w year)) = csv_file w"
    by (auto simp: get_df_def get_datapoints_web[OF True] Let_def save_csv filepath_csv)
  ultimately show ?thesis by auto
next
  case False
  from get_datapoints_local[OF False] obtain c where
    "get_datapoints E w year False = (w, Inr (yield_datapoints_from_string E c))"
    by auto
  then show ?thesis by (simp add: get_df_def)
qed

lemma get_df_list_world:
  "resolve E (fst (get_df_list E w years)) = resolve E w \<and>
   csv_file (fst (get_df_list E w years)) = csv_file w"
proof (induction years arbitrary: w)
  case Nil
  show ?case by simp
next
  case (Cons y ys)
  obtain w1 r where g: "get_df E w y = (w1, r)" by (cases "get_df E w y")
  have w1: "resolve E w1 = resolve E w" "csv_file w1 = csv_file w"
    using get_df_world[of E w y] g by auto
  show ?case
  proof (cases r)
    case (Inl e)
    then show ?thesis using g w1 by simp
  next
    case (Inr df)
    obtain w2 r2 where g2: "get_df_list E w1 ys = (w2, r2)" by (cases "get_df_list E w1 ys")
    have "resolve E w2 = resolve E w1" "csv_file w2 = csv_file w1"
      using Cons.IH[of w1] g2 by auto
    then show ?thesis using g Inr g2 w1 by (auto split: sum.splits)
  qed
qed

lemma get_df_list_snd:
  "snd (get_df_list E w years) = collect (\<lambda>y. df_of E (resolve E w y)) years"
proof (induction years arbitrary: w)
  case Nil
  show ?case by simp
next
  case (Cons y ys)
  obtain w1 r where g: "get_df E w y = (w1, r)" by (cases "get_df E w y")
  have w1: "resolve E w1 = resolve E w" using get_df_world[of E w y] g by auto
  have r: "r = df_of E (resolve E w y)" using get_df_snd[of E w y] g by simp
  show ?case
  proof (cases r)
    case (Inl e)
    then show ?thesis using g r by simp
  next
    case (Inr df)
    obtain w2 r2 where g2: "get_df_list E w1 ys = (w2, r2)" by (cases "get_df_list E w1 ys")
    have "r2 = collect (\<lambda>y. df_of E (resolve E w y)) ys"
      using Cons.IH[of w1] g2 w1 by simp
    then show ?thesis using g Inr g2 r by (auto split: sum.splits)
  qed
qed

lemma get_dfs_snd: "snd (get_dfs E w years) = frames E w years"
proof -
  obtain w1 r where g: "get_df_list E w years = (w1, r)" by (cases "get_df_list E w years")
  then have "r = collect (\<lambda>y. df_of E (resolve E w y)) years"
    using get_df_list_snd[of E w years] by simp
  then show ?thesis using g by (auto simp: get_dfs_def frames_def split: sum.splits)
qed

lemma get_dfs_world:
  "resolve E (fst (get_dfs E w years)) = resolve E w \<and>
   csv_file (fst (get_dfs E w years)) = csv_file w"
proof -
  obtain w1 r where g: "get_df_list E w years = (w1, r)" by (cases "get_df_list E w years")
  then have "resolve E w1 = resolve E w \<and> csv_file w1 = csv_file w"
    using get_df_list_world[of E w years] by simp
  then show ?thesis using g by (auto simp: get_dfs_def split: sum.splits)
qed

lemma resolve_csv_upd: "resolve E (w\<lparr>csv_file := t\<rparr>) = resolve E w"
  by (rule ext) (simp add: resolve_def cached_csv_upd)

lemma frames_cong: "resolve E w' = resolve E w \<Longrightarrow> frames E w' years = frames E w years"
  by (simp add: frames_def)

lemma collect_append:
  "collect f (xs @ ys) = Inr zs \<Longrightarrow>
     \<exists>as bs. zs = as @ bs \<and> collect f xs = Inr as \<and> collect f ys = Inr bs"
proof (induction xs arbitrary: zs)
  case Nil
  then show ?case by simp
next
  case (Cons x xs)
  then show ?case by (auto split: sum.splits)
qed

lemma frames_suffix:
  assumes "frames E w (xs @ ys) = Inr df1" "frames E w ys = Inr df2"
  shows "\<exists>pre. df1 = pre @ df2"
proof -
  from assms(1) obtain zs where zs: "collect (\<lambda>y. df_of E (resolve E w y)) (xs @ ys) = Inr zs"
      "df1 = concat zs"
    by (auto simp: frames_def pd_concat_def split: sum.splits if_splits)
  from collect_append[OF zs(1)] obtain as bs where ab: "zs = as @ bs"
     "collect (\<lambda>y. df_of E (resolve E w y)) ys = Inr bs" by auto
  then have "df2 = concat bs" using assms(2)
    by (auto simp: frames_def pd_concat_def split: if_splits)
  then show ?thesis using zs ab by auto
qed

subsection \<open>The update\<close>

lemma py_max_Inr: "py_max xs = Inr m \<Longrightarrow> xs \<noteq> [] \<and> m = Max (set xs)"
  by (cases xs) (auto simp: Max.set_eq_fold[symmetric])

lemma fst_mono_date: "(a::date) \<le> b \<Longrightarrow> fst a \<le> fst b"
  by (auto simp: less_eq_prod_def)

lemma update_persists: "snd (update_dfs E w) = Inr df \<Longrightarrow> csv_file (fst (update_dfs E w)) = Some df"
  by (auto simp: update_dfs_def Let_def split: option.splits sum.splits prod.splits)

lemma update_dfs_idem:
  "csv_file (fst (update_dfs E (fst (update_dfs E w)))) = csv_file (fst (update_dfs E w))"
proof (cases "csv_file w")
  case None
  then show ?thesis by (simp add: update_dfs_def)
next
  case (Some df0)
  show ?thesis
  proof (cases "py_max (map fst df0)")
    case (Inl e)
    then show ?thesis using Some by (simp add: update_dfs_def)
  next
    case (Inr m)
    let ?years = "[fst m .. today_year E]"
    obtain w1 r where g: "get_dfs E w ?years = (w1, r)" by (cases "get_dfs E w ?years")
    have w1: "resolve E w1 = resolve E w" "csv_file w1 = csv_file w"
      using get_dfs_world[of E w ?years] g by auto
    have r: "r = frames E w ?years" using get_dfs_snd[of E w ?years] g by simp
    show ?thesis
    proof (cases r)
      case (Inl e)
      then have u1: "update_dfs E w = (w1, Inl e)" using Some Inr g by (simp add: update_dfs_def)
      obtain w2 r2 where g2: "get_dfs E w1 ?years = (w2, r2)" by (cases "get_dfs E w1 ?years")
      have "r2 = frames E w1 ?years" using get_dfs_snd[of E w1 ?years] g2 by simp
      then have "r2 = Inl e" using r Inl frames_cong[OF w1(1)] by simp
      moreover have "csv_file w2 = csv_file w1" using get_dfs_world[of E w1 ?years] g2 by simp
      ultimately have "update_dfs E w1 = (w2, Inl e)"
        using w1 Some Inr g2 by (simp add: update_dfs_def)
      then show ?thesis using u1 \<open>csv_file w2 = csv_file w1\<close> by simp
    next
      case (Inr df1)
      let ?T = "drop_duplicates_last (df0 @ df1)"
      let ?w1 = "w1\<lparr>csv_file := Some ?T\<rparr>"
      have u1: "update_dfs E w = (?w1, Inr ?T)"
        using Some \<open>py_max (map fst df0) = Inr m\<close> g Inr by (simp add: update_dfs_def Let_def)
      have res: "resolve E ?w1 = resolve E w" using w1 by (simp add: resolve_csv_upd)
      have m: "df0 \<noteq> []" "m = Max (set (map fst df0))"
        using py_max_Inr[OF \<open>py_max (map fst df0) = Inr m\<close>] by auto
      have keys: "set (map fst ?T) = set (map fst df0) \<union> set (map fst df1)"
        using keys_ddl[of "df0 @ df1"] by (simp add: image_Un)
      have "set (map fst ?T) \<noteq> {}" unfolding keys using m(1) by simp
      then have Tne: "map fst ?T \<noteq> []" by auto
      then obtain m' where m': "py_max (map fst ?T) = Inr m'"
        by (cases "map fst ?T") auto
      have "m' = Max (set (map fst ?T))" using py_max_Inr[OF m'] by simp
      then have "m \<le> m'" using m keys by (simp add: Max_ge_iff)
      then have le: "fst m \<le> fst m'" by (rule fst_mono_date)
      let ?years' = "[fst m' .. today_year E]"
      obtain w2 r2 where g2: "get_dfs E ?w1 ?years' = (w2, r2)" by (cases "get_dfs E ?w1 ?years'")
      have r2: "r2 = frames E w ?years'"
        using get_dfs_snd[of E ?w1 ?years'] g2 frames_cong[OF res] by simp
      have c2: "csv_file w2 = Some ?T" using get_dfs_world[of E ?w1 ?years'] g2 by simp
      show ?thesis
      proof (cases r2)
        case (Inl e)
        then have "update_dfs E ?w1 = (w2, Inl e)" using m' g2 by (simp add: update_dfs_def)
        then show ?thesis using u1 c2 by simp
      next
        case (Inr df2)
        have ne: "?years' \<noteq> []"
          using r2 Inr by (auto simp: frames_def pd_concat_def)
        then have "fst m' \<le> today_year E" by simp
        then have "?years = [fst m .. fst m' - 1] @ ?years'"
          using le upto_split2[of "fst m" "fst m' - 1" "today_year E"]
          by (cases "fst m = fst m'") auto
        then obtain pre where "df1 = pre @ df2"
          using frames_suffix[of E w "[fst m .. fst m' - 1]" ?years' df1 df2] r r2 Inr
            \<open>r = Inr df1\<close> by auto
        then have "drop_duplicates_last (?T @ df2) = ?T"
          using ddl_absorb[of "df0 @ pre" df2] by simp
        then have "update_dfs E ?w1 = (w2\<lparr>csv_file := Some ?T\<rparr>, Inr ?T)"
          using m' g2 Inr by (simp add: update_dfs_def Let_def)
        then show ?thesis using u1 by simp
      qed
    qed
  qed
qed

subsection \<open>The parsers\<close>

lemma field_items_Inr_iff:
  "(\<exists>items. field_items E datum keys = Inr items) \<longleftrightarrow> (\<forall>k \<in> set keys. find_tag k datum \<noteq> None)"
  by (induction keys) (auto split: option.splits sum.splits)

lemma field_items_lookup:
  "field_items E datum keys = Inr items \<Longrightarrow> key \<in> set keys \<Longrightarrow> find_tag key datum = Some e \<Longrightarrow>
     map_of items key = Some (as_float E (text_of e))"
  by (induction keys arbitrary: items) (auto split: option.splits sum.splits)

lemma map_of_dict_set: "map_of (dict_set k v d) k' = (if k' = k then Some v else map_of d k')"
  by (induction d) auto

lemma date_not_field: "''date'' \<notin> set BC_KEYS"
  by (simp add: BC_KEYS_def)

lemma datapoint_Inr_iff: "(\<exists>rec. datapoint E datum = Inr rec) \<longleftrightarrow> entry_complete E datum"
proof -
  have "(\<exists>rec. datapoint E datum = Inr rec) \<longleftrightarrow>
        (\<exists>items. field_items E datum BC_KEYS = Inr items) \<and>
        (case find_tag ''NEW_DATE'' datum of None \<Rightarrow> False | Some e \<Rightarrow> strptime E (text_of e) \<noteq> None)"
    by (auto simp: datapoint_def get_date_def split: sum.splits option.splits)
  then show ?thesis by (simp add: field_items_Inr_iff entry_complete_def)
qed

lemma datapoint_lookup:
  assumes "datapoint E datum = Inr rec" "key \<in> set BC_KEYS" "find_tag key datum = Some e"
  shows "map_of rec key = Some (as_float E (text_of e))"
proof -
  from assms(1) obtain items v where
    it: "field_items E datum BC_KEYS = Inr items" and rec: "rec = dict_set ''date'' v items"
    by (auto simp: datapoint_def split: sum.splits option.splits)
  have "key \<noteq> ''date''" using assms(2) date_not_field by auto
  then show ?thesis using field_items_lookup[OF it assms(2,3)] rec by (simp add: map_of_dict_set)
qed

lemma generate_all:
  "(\<forall>x \<in> set xs. \<exists>y. f x = Inr y) \<Longrightarrow>
     snd (generate f xs) = None \<and> map Inr (fst (generate f xs)) = map f xs"
  by (induction xs) (auto split: sum.splits)

lemma generate_error_iff:
  "snd (generate f xs) \<noteq> None \<longleftrightarrow> (\<exists>x \<in> set xs. \<exists>e. f x = Inl e)"
  by (induction xs) (auto split: sum.splits)

lemma parser_error_iff:
  "snd (yield_datapoints_from_string E s) \<noteq> None \<longleftrightarrow>
     (\<exists>d \<in> set (find_all ''content'' (soup E s)). \<not> entry_complete E d)"
proof -
  have "(\<exists>e. datapoint E d = Inl e) \<longleftrightarrow> \<not> entry_complete E d" for d
    using datapoint_Inr_iff[of E d] by (cases "datapoint E d") auto
  then show ?thesis
    unfolding yield_datapoints_from_string_def generate_error_iff by blast
qed

lemma datapoint_2_TypeError: "datapoint_2 E prop = Inl TypeError"
  by (simp add: datapoint_2_def get_date_def split: option.splits)

lemma generate_const_error:
  "generate (\<lambda>x. Inl e) xs = ([], if xs = [] then None else Some e)"
  by (cases xs) auto

lemma collect_fields_absent:
  "collect_fields E children point = Inr p \<Longrightarrow> map_of point k = None \<Longrightarrow>
     \<forall>c \<in> set children. \<not> named k c \<Longrightarrow> map_of p k = None"
proof (induction E children point rule: collect_fields.induct)
  case (1 E point)
  then show ?case by simp
next
  case (2 E s children point)
  then show ?case by simp
next
  case (3 E name cs children point)
  then show ?case by (auto simp: map_of_dict_set split: if_splits option.splits)
qed

text \<open>
  A record of the parser has its date and its twelve fields, so the branches of \<open>frame_row\<close> for a
  missing key are not taken on the pipeline.
\<close>

lemma frame_row_datapoint:
  assumes "datapoint E datum = Inr rec"
  shows "\<exists>day. map_of rec ''date'' = Some (PDay day) \<and> frame_row rec = Inr (day, map (map_of rec) BC_KEYS)"
proof -
  from assms obtain items d where "rec = dict_set ''date'' (PDay d) items"
    by (auto simp: datapoint_def split: sum.splits option.splits)
  then have "map_of rec ''date'' = Some (PDay d) \<and>
      frame_row rec = Inr (d, map (map_of rec) BC_KEYS)"
    by (simp add: frame_row_def map_of_dict_set)
  then show ?thesis by blast
qed

subsection \<open>The small run, evaluated\<close>

lemma sample_fetch:
  "snd (get_dfs (sample_env ''feed a'') sample_world [2020..2020]) =
     Inr [((2020, 1, 2), sample_cells (PFloat 2.33)), ((2020, 1, 3), sample_cells (PInt 0))]"
  by code_simp

lemma sample_latest: "py_max (map fst [((2020, 1, 2), sample_cells (PFloat 2.25))]) = Inr (2020, 1, 2)"
  by simp

section \<open>The properties of the pipeline\<close>

subsection \<open>Merging\<close>

text \<open>
  C1 (merge correctness). When the table on file and the freshly fetched table both have a
  row for the date \<open>D\<close>, the table that \<open>update_dfs\<close> returns and writes has exactly one row
  for \<open>D\<close>, and it is a fetched row: the last row for \<open>D\<close> of the fetched table, which is its
  only one when the fetched table has the date once.
\<close>

theorem update_fresh_rows_win:
  assumes "csv_file w = Some df0" "py_max (map fst df0) = Inr latest"
    and "get_dfs E w [fst latest .. today_year E] = (w1, Inr df1)"
    and "D \<in> fst ` set df0" "D \<in> fst ` set df1"
  shows "\<exists>df. update_dfs E w = (w1\<lparr>csv_file := Some df\<rparr>, Inr df)
     \<and> filter (\<lambda>r. fst r = D) df = [last (filter (\<lambda>r. fst r = D) df1)]
     \<and> last (filter (\<lambda>r. fst r = D) df1) \<in> set df1"
proof -
  let ?df = "drop_duplicates_last (df0 @ df1)"
  have u: "update_dfs E w = (w1\<lparr>csv_file := Some ?df\<rparr>, Inr ?df)"
    using assms(1-3) by (simp add: update_dfs_def Let_def)
  have ne: "filter (\<lambda>r. fst r = D) df1 \<noteq> []" using assms(5) by (auto simp: filter_empty_conv)
  have "filter (\<lambda>r. fst r = D) ?df = [last (filter (\<lambda>r. fst r = D) (df0 @ df1))]"
    using assms(5) by (simp add: ddl_filter_key image_Un)
  then have f: "filter (\<lambda>r. fst r = D) ?df = [last (filter (\<lambda>r. fst r = D) df1)]"
    using ne by simp
  have "last (filter (\<lambda>r. fst r = D) df1) \<in> set (filter (\<lambda>r. fst r = D) df1)"
    using ne by (rule last_in_set)
  then have "last (filter (\<lambda>r. fst r = D) df1) \<in> set df1" by simp
  then show ?thesis using u f by blast
qed

text \<open>
  On the small run: the file has 2.25 as the 30-year yield of 2020-01-02, feed a has 2.33, and
  the merged table has the one row with 2.33.
\<close>

theorem update_fresh_rows_win_witness:
  "\<exists>df. snd (update_dfs (sample_env ''feed a'') sample_world) = Inr df \<and>
     filter (\<lambda>r. fst r = (2020, 1, 2)) df = [((2020, 1, 2), sample_cells (PFloat 2.33))]"
proof -
  let ?E = "sample_env ''feed a''"
  let ?df0 = "[((2020::int, 1::int, 2::int), sample_cells (PFloat 2.25))]"
  let ?df1 = "[((2020::int, 1::int, 2::int), sample_cells (PFloat 2.33)),
               ((2020, 1, 3), sample_cells (PInt 0))]"
  obtain w1 r where g: "get_dfs ?E sample_world [2020..2020] = (w1, r)"
    by (cases "get_dfs ?E sample_world [2020..2020]")
  then have "r = Inr ?df1" using sample_fetch by simp
  then have g1: "get_dfs ?E sample_world [fst (2020::int, 1::int, 2::int) .. today_year ?E] =
      (w1, Inr ?df1)"
    using g by (simp add: sample_env_def)
  have c: "csv_file sample_world = Some ?df0" by (simp add: sample_world_def)
  have d0: "(2020, 1, 2) \<in> fst ` set ?df0" by simp
  have d1: "(2020, 1, 2) \<in> fst ` set ?df1" by simp
  from update_fresh_rows_win[OF c sample_latest g1 d0 d1] show ?thesis by auto
qed

text \<open>
  C2 (order after the merge), as the code has it. \<open>update_dfs\<close> does not sort. The table it
  returns and writes is the rows on file whose date was not fetched again, followed by the
  fetched rows, each date kept once, in the order of the concatenation. It is in
  non-decreasing date order when the table on file and the fetched table each are, and every
  row on file whose date was not fetched again is dated no later than every fetched row.
\<close>

theorem update_keeps_concat_order:
  assumes "csv_file w = Some df0" "py_max (map fst df0) = Inr latest"
    and "get_dfs E w [fst latest .. today_year E] = (w1, Inr df1)"
  shows "\<exists>df. update_dfs E w = (w1\<lparr>csv_file := Some df\<rparr>, Inr df)
     \<and> df = filter (\<lambda>r. fst r \<notin> fst ` set df1) (drop_duplicates_last df0) @
            drop_duplicates_last df1
     \<and> (sorted (map fst df0) \<and> sorted (map fst df1) \<and>
        (\<forall>r \<in> set df0. fst r \<notin> fst ` set df1 \<longrightarrow> (\<forall>r' \<in> set df1. fst r \<le> fst r'))
          \<longrightarrow> sorted (map fst df))"
proof -
  let ?df = "drop_duplicates_last (df0 @ df1)"
  have u: "update_dfs E w = (w1\<lparr>csv_file := Some ?df\<rparr>, Inr ?df)"
    using assms(1-3) by (simp add: update_dfs_def Let_def)
  have e: "?df = filter (\<lambda>r. fst r \<notin> fst ` set df1) (drop_duplicates_last df0) @
      drop_duplicates_last df1"
    by (rule ddl_append)
  have s: "sorted (map fst ?df)"
    if a: "sorted (map fst df0)" and b: "sorted (map fst df1)"
      and c: "\<forall>r \<in> set df0. fst r \<notin> fst ` set df1 \<longrightarrow> (\<forall>r' \<in> set df1. fst r \<le> fst r')"
    using a b c by (rule sorted_merge_ddl)
  show ?thesis using u e s by blast
qed

text \<open>On the small run with feed a the two tables are in order, and so is the result.\<close>

theorem update_keeps_concat_order_witness:
  "\<exists>df. snd (update_dfs (sample_env ''feed a'') sample_world) = Inr df \<and>
     df = [((2020, 1, 2), sample_cells (PFloat 2.33)), ((2020, 1, 3), sample_cells (PInt 0))] \<and>
     sorted (map fst df)"
proof -
  let ?E = "sample_env ''feed a''"
  let ?df0 = "[((2020::int, 1::int, 2::int), sample_cells (PFloat 2.25))]"
  let ?df1 = "[((2020::int, 1::int, 2::int), sample_cells (PFloat 2.33)),
               ((2020, 1, 3), sample_cells (PInt 0))]"
  obtain w1 r where g: "get_dfs ?E sample_world [2020..2020] = (w1, r)"
    by (cases "get_dfs ?E sample_world [2020..2020]")
  then have "r = Inr ?df1" using sample_fetch by simp
  then have g1: "get_dfs ?E sample_world [fst (2020::int, 1::int, 2::int) .. today_year ?E] =
      (w1, Inr ?df1)"
    using g by (simp add: sample_env_def)
  have c: "csv_file sample_world = Some ?df0" by (simp add: sample_world_def)
  have s: "sorted (map fst ?df0) \<and> sorted (map fst ?df1) \<and>
        (\<forall>r \<in> set ?df0. fst r \<notin> fst ` set ?df1 \<longrightarrow> (\<forall>r' \<in> set ?df1. fst r \<le> fst r'))"
    by simp
  from update_keeps_concat_order[OF c sample_latest g1] s show ?thesis by auto
qed

text \<open>
  With feed b, whose entries come in the order 2020-01-03, 2020-01-02, the table returned and
  written starts with the later day: it is not in date order.
\<close>

theorem update_result_unsorted_counterexample:
  "snd (update_dfs (sample_env ''feed b'') sample_world) =
     Inr [((2020, 1, 3), sample_cells (PFloat 2.33)), ((2020, 1, 2), sample_cells (PFloat 2.33))]
   \<and> csv_file (fst (update_dfs (sample_env ''feed b'') sample_world)) =
     Some [((2020, 1, 3), sample_cells (PFloat 2.33)), ((2020, 1, 2), sample_cells (PFloat 2.33))]
   \<and> \<not> sorted (map fst
       [((2020::int, 1::int, 3::int), sample_cells (PFloat 2.33)),
        ((2020, 1, 2), sample_cells (PFloat 2.33))])"
proof -
  have 1: "snd (update_dfs (sample_env ''feed b'') sample_world) =
     Inr [((2020, 1, 3), sample_cells (PFloat 2.33)), ((2020, 1, 2), sample_cells (PFloat 2.33))]"
    by code_simp
  have 2: "csv_file (fst (update_dfs (sample_env ''feed b'') sample_world)) =
     Some [((2020, 1, 3), sample_cells (PFloat 2.33)), ((2020, 1, 2), sample_cells (PFloat 2.33))]"
    by code_simp
  show ?thesis using 1 2 by simp
qed

text \<open>
  C7 (idempotence). In the same environment, so with the same response for every year and the
  same current year, a second \<open>update_dfs\<close> leaves on file the very table of the first: the
  same rows in the same order. When the first run returns a table, that table is what both
  runs leave on file. The file holds the table itself here; its text form is not modelled.
\<close>

theorem update_idempotent:
  "csv_file (fst (update_dfs E (fst (update_dfs E w)))) = csv_file (fst (update_dfs E w))
   \<and> (\<forall>df. snd (update_dfs E w) = Inr df \<longrightarrow>
         csv_file (fst (update_dfs E w)) = Some df \<and>
         csv_file (fst (update_dfs E (fst (update_dfs E w)))) = Some df)"
  using update_dfs_idem[of E w] update_persists[of E w] by simp

theorem update_idempotent_witness:
  "csv_file (fst (update_dfs (sample_env ''feed a'')
       (fst (update_dfs (sample_env ''feed a'') sample_world)))) =
     Some [((2020, 1, 2), sample_cells (PFloat 2.33)), ((2020, 1, 3), sample_cells (PInt 0))]"
proof -
  have "snd (update_dfs (sample_env ''feed a'') sample_world) =
     Inr [((2020, 1, 2), sample_cells (PFloat 2.33)), ((2020, 1, 3), sample_cells (PInt 0))]"
    by code_simp
  then show ?thesis using update_idempotent[of "sample_env ''feed a''" sample_world] by blast
qed

subsection \<open>Cache or fetch\<close>

text \<open>
  C3 (cache-or-fetch policy). \<open>get_datapoints\<close> asks the network for the year exactly when
  \<open>from_web\<close> is set, or the year is the current year, or the year has no file in the cache;
  it asks once. When it asks, it returns the records of the response, and the response is
  the year's file afterwards, unless the response carries the error marker, in which case
  it raises. When it does not ask, it returns the records of the file and changes nothing.
\<close>

theorem cache_or_fetch_policy:
  "requested (fst (get_datapoints E w year from_web)) =
      requested w @ (if from_web \<or> year = today_year E \<or> cached w year = None then [year] else [])
   \<and> (from_web \<or> year = today_year E \<or> cached w year = None \<longrightarrow>
        snd (get_datapoints E w year from_web) =
          (if str_in ''Error'' (web E year) then Inl ValueError
           else Inr (yield_datapoints_from_string E (web E year)))
        \<and> (\<not> str_in ''Error'' (web E year) \<longrightarrow>
             cached (fst (get_datapoints E w year from_web)) =
               (cached w)(year := Some (web E year))))
   \<and> (\<not> (from_web \<or> year = today_year E \<or> cached w year = None) \<longrightarrow>
        (\<exists>c. cached w year = Some c \<and>
           get_datapoints E w year from_web = (w, Inr (yield_datapoints_from_string E c))))"
proof (cases "use_web E w year from_web")
  case True
  then have c: "from_web \<or> year = today_year E \<or> cached w year = None"
    by (simp add: use_web_def)
  have 1: "requested (fst (get_datapoints E w year from_web)) = requested w @ [year]"
    by (simp add: get_datapoints_web[OF True] Let_def save_requested filepath_requested)
  have 2: "snd (get_datapoints E w year from_web) =
          (if str_in ''Error'' (web E year) then Inl ValueError
           else Inr (yield_datapoints_from_string E (web E year)))"
    by (simp add: get_datapoints_web[OF True] Let_def)
  have 3: "cached (fst (get_datapoints E w year from_web)) = (cached w)(year := Some (web E year))"
    if "\<not> str_in ''Error'' (web E year)"
    using that
    by (simp add: get_datapoints_web[OF True] Let_def cached_save cached_requested_upd
        cached_filepath)
  show ?thesis using c 1 2 3 by simp
next
  case False
  then have c: "\<not> (from_web \<or> year = today_year E \<or> cached w year = None)"
    by (simp add: use_web_def)
  from get_datapoints_local[OF False] show ?thesis using c by auto
qed

text \<open>
  With files for 2019 and 2020 and the current year 2020: 2019 is read from its file with no
  request, 2020 is requested and its file replaced; 2019 is requested when it has no file, or
  when \<open>from_web\<close> is set.
\<close>

theorem cache_or_fetch_policy_witness:
  "get_datapoints (sample_env ''feed b'') sample_cache 2019 False =
      (sample_cache, Inr (yield_datapoints_from_string (sample_env ''feed b'') ''feed a''))
   \<and> requested (fst (get_datapoints (sample_env ''feed b'') sample_cache 2019 False)) = []
   \<and> requested (fst (get_datapoints (sample_env ''feed b'') sample_cache 2020 False)) = [2020]
   \<and> cached (fst (get_datapoints (sample_env ''feed b'') sample_cache 2020 False)) 2020 =
       Some ''feed b''
   \<and> requested (fst (get_datapoints (sample_env ''feed b'') sample_world 2019 False)) = [2019]
   \<and> requested (fst (get_datapoints (sample_env ''feed b'') sample_cache 2019 True)) = [2019]"
proof -
  let ?E = "sample_env ''feed b''"
  have e: "today_year ?E = 2020" "web ?E = (\<lambda>y. ''feed b'')" by (simp_all add: sample_env_def)
  have c: "cached sample_cache 2019 = Some ''feed a''" "cached sample_cache 2020 = Some ''feed a''"
     "cached sample_world 2019 = None"
    by (simp_all add: cached_def sample_cache_def sample_world_def)
  have r: "requested sample_cache = []" "requested sample_world = []"
    by (simp_all add: sample_cache_def sample_world_def)
  have n: "\<not> str_in ''Error'' ''feed b''" by simp
  show ?thesis
    using cache_or_fetch_policy[of ?E sample_cache 2019 False]
      cache_or_fetch_policy[of ?E sample_cache 2020 False]
      cache_or_fetch_policy[of ?E sample_world 2019 False]
      cache_or_fetch_policy[of ?E sample_cache 2019 True]
    by (simp add: e c r n)
qed

text \<open>
  C4 (error marker). \<open>get_xml_content_from_web\<close> raises exactly when the response body has
  \<^verbatim>\<open>Error\<close> as a substring, and returns the body as it is otherwise. A body with the marker
  is not written: \<open>get_datapoints\<close> leaves every file of the cache as it was, and raises
  exactly when it asked the network.
\<close>

theorem error_marker_detection:
  "snd (get_xml_content_from_web E w year) =
     (if \<exists>p q. web E year = p @ ''Error'' @ q then Inl ValueError else Inr (web E year))
   \<and> ((\<exists>p q. web E year = p @ ''Error'' @ q) \<longrightarrow>
        cached (fst (get_datapoints E w year from_web)) = cached w \<and>
        (\<exists>err. snd (get_datapoints E w year from_web) = Inl err) =
          (from_web \<or> year = today_year E \<or> cached w year = None))"
proof -
  have s: "str_in ''Error'' (web E year) \<longleftrightarrow> (\<exists>p q. web E year = p @ ''Error'' @ q)"
    by (rule str_in_iff)
  have 1: "snd (get_xml_content_from_web E w year) =
     (if \<exists>p q. web E year = p @ ''Error'' @ q then Inl ValueError else Inr (web E year))"
    unfolding s[symmetric] by (simp add: get_xml_content_from_web_def get_web_xml_def)
  have 2: "cached (fst (get_datapoints E w year from_web)) = cached w \<and>
        (\<exists>err. snd (get_datapoints E w year from_web) = Inl err) =
          (from_web \<or> year = today_year E \<or> cached w year = None)"
    if "\<exists>p q. web E year = p @ ''Error'' @ q"
  proof (cases "use_web E w year from_web")
    case True
    from that have "str_in ''Error'' (web E year)" by (simp only: s)
    then show ?thesis using True
      by (auto simp: get_datapoints_web[OF True] Let_def cached_requested_upd cached_filepath
          use_web_def)
  next
    case False
    from get_datapoints_local[OF False] show ?thesis using False by (auto simp: use_web_def)
  qed
  show ?thesis using 1 2 by blast
qed

theorem error_marker_detection_witness:
  "(\<exists>p q. ''Error 500'' = p @ ''Error'' @ q)
   \<and> snd (get_xml_content_from_web (sample_env ''Error 500'') sample_cache 2020) = Inl ValueError
   \<and> cached (fst (get_datapoints (sample_env ''Error 500'') sample_cache 2020 False)) =
       cached sample_cache
   \<and> snd (get_xml_content_from_web (sample_env ''feed a'') sample_cache 2020) = Inr ''feed a''"
proof -
  have e: "web (sample_env ''Error 500'') 2020 = ''Error 500''"
     "today_year (sample_env ''Error 500'') = 2020"
     "web (sample_env ''feed a'') 2020 = ''feed a''"
    by (simp_all add: sample_env_def)
  have "''Error 500'' = [] @ ''Error'' @ '' 500''" by simp
  then have x: "\<exists>p q. ''Error 500'' = p @ ''Error'' @ q" by blast
  have "\<not> str_in ''Error'' ''feed a''" by simp
  then have y: "\<not> (\<exists>p q. ''feed a'' = p @ ''Error'' @ q)" using str_in_iff by blast
  show ?thesis
    using error_marker_detection[of "sample_env ''Error 500''" sample_cache 2020 False]
      error_marker_detection[of "sample_env ''feed a''" sample_cache 2020 False] x y
    by (simp add: e)
qed

subsection \<open>Parsing\<close>

text \<open>
  C5 (zero default), as the code has it. For an entry and one of the twelve fields whose
  element is present in the entry: when the element's text is not a number for \<^verbatim>\<open>float\<close>, the
  empty text of a null value included, \<open>as_float\<close> gives the integer zero, the record of the
  entry has zero under the field's key, and the failure of \<^verbatim>\<open>float\<close> raises nothing. The
  entry yields a record exactly when it is complete, whatever \<^verbatim>\<open>float\<close> does; in a document
  whose entries are all complete the parser ends without an exception and yields that
  record. An entry that has no element for the field is not covered: there the parser raises.
\<close>

theorem zero_default_coercion:
  assumes "key \<in> set BC_KEYS" "find_tag key datum = Some e" "py_float E (text_of e) = None"
  shows "as_float E (text_of e) = PInt 0
    \<and> (\<forall>rec. datapoint E datum = Inr rec \<longrightarrow> map_of rec key = Some (PInt 0))
    \<and> ((\<exists>rec. datapoint E datum = Inr rec) \<longleftrightarrow> entry_complete E datum)
    \<and> (datum \<in> set (find_all ''content'' (soup E s)) \<and>
        (\<forall>d \<in> set (find_all ''content'' (soup E s)). entry_complete E d) \<longrightarrow>
          snd (yield_datapoints_from_string E s) = None \<and>
          (\<exists>rec \<in> set (fst (yield_datapoints_from_string E s)).
             datapoint E datum = Inr rec \<and> map_of rec key = Some (PInt 0)))"
proof -
  have a: "as_float E (text_of e) = PInt 0" using assms(3) by (simp add: as_float_def)
  have b: "\<forall>rec. datapoint E datum = Inr rec \<longrightarrow> map_of rec key = Some (PInt 0)"
    using datapoint_lookup[OF _ assms(1,2)] a by auto
  have d: "snd (yield_datapoints_from_string E s) = None \<and>
          (\<exists>rec \<in> set (fst (yield_datapoints_from_string E s)).
             datapoint E datum = Inr rec \<and> map_of rec key = Some (PInt 0))"
    if in_doc: "datum \<in> set (find_all ''content'' (soup E s))"
      and all: "\<forall>d \<in> set (find_all ''content'' (soup E s)). entry_complete E d"
  proof -
    let ?ds = "find_all ''content'' (soup E s)"
    have "\<forall>x \<in> set ?ds. \<exists>y. datapoint E x = Inr y" using all datapoint_Inr_iff by blast
    from generate_all[OF this] have g: "snd (generate (datapoint E) ?ds) = None"
      "map Inr (fst (generate (datapoint E) ?ds)) = map (datapoint E) ?ds" by auto
    have "datapoint E datum \<in> set (map (datapoint E) ?ds)" using in_doc by simp
    then have "datapoint E datum \<in> Inr ` set (fst (generate (datapoint E) ?ds))"
      using g(2) by (metis set_map)
    then obtain rec where "rec \<in> set (fst (generate (datapoint E) ?ds))"
      "datapoint E datum = Inr rec"
      by auto
    then show ?thesis using g(1) b by (auto simp: yield_datapoints_from_string_def)
  qed
  show ?thesis using a b d datapoint_Inr_iff by blast
qed

text \<open>
  In feed a the entry of 2020-01-03 has a 30-year element without text: the parser ends
  without an exception and the record of that day has zero as its 30-year yield.
\<close>

theorem zero_default_coercion_witness:
  "snd (yield_datapoints_from_string (sample_env ''feed a'') ''feed a'') = None
   \<and> (\<exists>rec \<in> set (fst (yield_datapoints_from_string (sample_env ''feed a'') ''feed a'')).
        map_of rec ''date'' = Some (PDay (2020, 1, 3)) \<and> map_of rec ''BC_30YEAR'' = Some (PInt 0))"
proof -
  let ?E = "sample_env ''feed a''"
  let ?datum = "Tag ''content'' [Tag ''properties''
       (leaf ''NEW_DATE'' ''2020-01-03T00:00:00'' #
        map (\<lambda>k. leaf k (if k = ''BC_30YEAR'' then [] else ''1.5'')) BC_KEYS)]"
  have k: "''BC_30YEAR'' \<in> set BC_KEYS" by (simp add: BC_KEYS_def)
  have f: "find_tag ''BC_30YEAR'' ?datum = Some (Tag ''BC_30YEAR'' [])" by code_simp
  have p: "py_float ?E (text_of (Tag ''BC_30YEAR'' [])) = None" by (simp add: sample_env_def)
  have d: "?datum \<in> set (find_all ''content'' (soup ?E ''feed a''))" by code_simp
  have a: "\<forall>d \<in> set (find_all ''content'' (soup ?E ''feed a'')). entry_complete ?E d"
    by code_simp
  have dt: "case datapoint ?E ?datum of Inl err \<Rightarrow> False
     | Inr rec \<Rightarrow> map_of rec ''date'' = Some (PDay (2020, 1, 3))"
    by code_simp
  from zero_default_coercion[OF k f p, of "''feed a''"] d a have
    "snd (yield_datapoints_from_string ?E ''feed a'') = None \<and>
     (\<exists>rec \<in> set (fst (yield_datapoints_from_string ?E ''feed a'')).
        datapoint ?E ?datum = Inr rec \<and> map_of rec ''BC_30YEAR'' = Some (PInt 0))"
    by blast
  then show ?thesis using dt by (auto split: sum.splits)
qed

text \<open>
  In feed c the one entry has no 30-year element. The parser yields no record for it with a
  zero in that field: it yields nothing and ends with AttributeError.
\<close>

theorem absent_field_raises_counterexample:
  "map (find_tag ''BC_30YEAR'') (find_all ''content'' (soup (sample_env ''feed c'') ''feed c'')) =
     [None]
   \<and> yield_datapoints_from_string (sample_env ''feed c'') ''feed c'' = ([], Some AttributeError)"
  by code_simp

text \<open>
  C6 (document without entries), as the code has it. On a document with no \<^verbatim>\<open>content\<close>
  element \<open>yield_datapoints_from_string\<close> yields nothing and raises nothing; the failure comes
  afterwards, as the KeyError of the column selection in \<open>get_df\<close>. The parser itself raises
  exactly when some \<^verbatim>\<open>content\<close> entry is not complete.
\<close>

theorem no_entries_yield_nothing:
  "(find_all ''content'' (soup E s) = [] \<longrightarrow>
      yield_datapoints_from_string E s = ([], None) \<and>
      DataFrame (yield_datapoints_from_string E s) = Inl KeyError)
   \<and> (snd (yield_datapoints_from_string E s) \<noteq> None \<longleftrightarrow>
        (\<exists>d \<in> set (find_all ''content'' (soup E s)). \<not> entry_complete E d))"
  using parser_error_iff[of E s]
  by (simp add: yield_datapoints_from_string_def DataFrame_def)

theorem no_entries_yield_nothing_witness:
  "yield_datapoints_from_string (sample_env ''feed d'') ''feed d'' = ([], None)
    \<and> DataFrame (yield_datapoints_from_string (sample_env ''feed d'') ''feed d'') = Inl KeyError
    \<and> snd (yield_datapoints_from_string (sample_env ''feed c'') ''feed c'') \<noteq> None"
proof -
  have 1: "find_all ''content'' (soup (sample_env ''feed d'') ''feed d'') = []" by code_simp
  have 2: "\<exists>d \<in> set (find_all ''content'' (soup (sample_env ''feed c'') ''feed c'')).
      \<not> entry_complete (sample_env ''feed c'') d"
    by code_simp
  show ?thesis
    using no_entries_yield_nothing[of "sample_env ''feed d''" "''feed d''"]
      no_entries_yield_nothing[of "sample_env ''feed c''" "''feed c''"] 1 2
    by blast
qed

text \<open>
  Feed d has its properties directly under the entry, with no \<^verbatim>\<open>content\<close> element: the
  parser yields the empty sequence and ends without an exception.
\<close>

theorem no_entries_silent_counterexample:
  "find_all ''properties'' (soup (sample_env ''feed d'') ''feed d'') \<noteq> []
   \<and> find_all ''content'' (soup (sample_env ''feed d'') ''feed d'') = []
   \<and> yield_datapoints_from_string (sample_env ''feed d'') ''feed d'' = ([], None)"
  by code_simp

text \<open>
  C9 (the alternative parser). \<open>yield_datapoints_from_string_2\<close> never yields a record: it
  ends with TypeError at the first \<^verbatim>\<open>properties\<close> element, because \<open>get_date\<close> is given
  the element (or \<^verbatim>\<open>None\<close>) and not its text, and yields nothing without an exception when
  there is no such element. Its loop over the children has no zero default: a child named
  \<^verbatim>\<open>BC_...\<close> whose text is not a number raises ValueError, and a key that no child has and
  the point did not have stays absent.
\<close>

theorem alternative_parser_raises:
  "yield_datapoints_from_string_2 E s =
      ([], if find_all ''properties'' (soup E s) = [] then None else Some TypeError)
   \<and> (\<forall>name cs rest point.
        startswith ''BC_'' name \<and> py_float E (text_of (Tag name cs)) = None \<longrightarrow>
          collect_fields E (Tag name cs # rest) point = Inl ValueError)
   \<and> (\<forall>children point p k.
        collect_fields E children point = Inr p \<and> map_of point k = None \<and>
        (\<forall>c \<in> set children. \<not> named k c) \<longrightarrow> map_of p k = None)"
proof -
  have "datapoint_2 E = (\<lambda>x. Inl TypeError)" by (rule ext) (rule datapoint_2_TypeError)
  then have "yield_datapoints_from_string_2 E s =
      ([], if find_all ''properties'' (soup E s) = [] then None else Some TypeError)"
    by (simp add: yield_datapoints_from_string_2_def generate_const_error)
  moreover have "\<forall>children point p k.
        collect_fields E children point = Inr p \<and> map_of point k = None \<and>
        (\<forall>c \<in> set children. \<not> named k c) \<longrightarrow> map_of p k = None"
    using collect_fields_absent by blast
  ultimately show ?thesis by simp
qed

theorem alternative_parser_raises_witness:
  "yield_datapoints_from_string_2 (sample_env ''feed d'') ''feed d'' = ([], Some TypeError)
   \<and> collect_fields (sample_env ''feed d'') [Tag ''BC_30YEAR'' []] [] = Inl ValueError
   \<and> (\<exists>p. collect_fields (sample_env ''feed d'') [Tag ''BC_2YEAR'' [NavigableString ''1.5'']] [] =
            Inr p \<and> map_of p ''BC_30YEAR'' = None)"
proof -
  let ?E = "sample_env ''feed d''"
  have n: "find_all ''properties'' (soup ?E ''feed d'') \<noteq> []" by code_simp
  have b: "startswith ''BC_'' ''BC_30YEAR'' \<and> py_float ?E (text_of (Tag ''BC_30YEAR'' [])) = None"
    by (simp add: sample_env_def)
  have c: "map_of ([]::dict) ''BC_30YEAR'' = None \<and>
     (\<forall>c \<in> set [Tag ''BC_2YEAR'' [NavigableString ''1.5'']]. \<not> named ''BC_30YEAR'' c)"
    by simp
  from alternative_parser_raises[of ?E "''feed d''"] have
    1: "yield_datapoints_from_string_2 ?E ''feed d'' =
      ([], if find_all ''properties'' (soup ?E ''feed d'') = [] then None else Some TypeError)"
    and 2: "\<forall>name cs rest point.
        startswith ''BC_'' name \<and> py_float ?E (text_of (Tag name cs)) = None \<longrightarrow>
          collect_fields ?E (Tag name cs # rest) point = Inl ValueError"
    and 3: "\<forall>children point p k.
        collect_fields ?E children point = Inr p \<and> map_of point k = None \<and>
        (\<forall>c \<in> set children. \<not> named k c) \<longrightarrow> map_of p k = None"
    by blast+
  have A: "yield_datapoints_from_string_2 ?E ''feed d'' = ([], Some TypeError)" using 1 n by simp
  have B: "collect_fields ?E [Tag ''BC_30YEAR'' []] [] = Inl ValueError" using 2 b by blast
  have r: "collect_fields ?E [Tag ''BC_2YEAR'' [NavigableString ''1.5'']] [] =
      Inr [(''BC_2YEAR'', PFloat 1.5)]"
    by (simp add: sample_env_def)
  have C: "map_of [(''BC_2YEAR'', PFloat 1.5)] ''BC_30YEAR'' = None" using 3 c r by blast
  show ?thesis using A B C r by blast
qed

end
